theory Spec2Isabelle
  imports Main "HOL-Library.AList"
begin

section \<open>The URL shortener: registry and validators\<close>

text \<open>
  The backend keeps its short links in one module-level JavaScript \<^verbatim>\<open>Map\<close>
  (\<^verbatim>\<open>services/urlService.js\<close>) and checks request fields with three pure functions
  (\<^verbatim>\<open>services/validationService.js\<close>). Both files are embedded here function by
  function, under the names of the source.

  Conventions of the embedding:
  \<^item> a JavaScript string is a \<^typ>\<open>string\<close>; a character stands for the UTF-16 code
    unit with the same number, so the strings covered are those of code units 0 to 255;
  \<^item> an instant (\<^verbatim>\<open>Date\<close>) is an \<^typ>\<open>int\<close>, the milliseconds since the epoch, which
    is what \<^verbatim>\<open><\<close> compares on two \<^verbatim>\<open>Date\<close> objects;
  \<^item> \<^verbatim>\<open>undefined\<close> and \<^verbatim>\<open>null\<close> are \<^const>\<open>None\<close> where a function tests for them;
  \<^item> the module-level \<^verbatim>\<open>urlStorage\<close> is passed in and returned: a function that
    mutates it returns the new registry, together with its result when it has one;
  \<^item> an entry object is a value: every key of the registry owns its entry object and
    its \<^verbatim>\<open>clicks\<close> array.
\<close>

subsection \<open>Data\<close>

record clickEvent =
  timestamp :: int
  referrer :: string
  location :: string
  userAgent :: string

record urlEntry =
  shortcode :: string
  originalUrl :: string
  createdAt :: int
  expiresAt :: int
  clicks :: "clickEvent list"

subsection \<open>The JavaScript \<open>Map\<close>\<close>

text \<open>
  A \<^verbatim>\<open>Map\<close> iterates in insertion order, and \<^verbatim>\<open>set\<close> on a key that is present
  replaces the value where it stands; on a new key it appends. An association list with
  \<^const>\<open>AList.update\<close> (replace in place, else append at the end) and
  \<^const>\<open>AList.delete\<close> is exactly that. A \<^verbatim>\<open>Map\<close> never holds a key twice: the lists
  that stand for one have \<^term>\<open>distinct (map fst m)\<close>.
\<close>

type_synonym ('k, 'v) js_map = "('k \<times> 'v) list"

definition Map_has :: "'k \<Rightarrow> ('k, 'v) js_map \<Rightarrow> bool" where
  "Map_has k m = (k \<in> set (map fst m))"

definition Map_get :: "'k \<Rightarrow> ('k, 'v) js_map \<Rightarrow> 'v option" where
  "Map_get k m = map_of m k"

definition Map_set :: "'k \<Rightarrow> 'v \<Rightarrow> ('k, 'v) js_map \<Rightarrow> ('k, 'v) js_map" where
  "Map_set k v m = AList.update k v m"

definition Map_delete :: "'k \<Rightarrow> ('k, 'v) js_map \<Rightarrow> ('k, 'v) js_map" where
  "Map_delete k m = AList.delete k m"

subsection \<open>urlService.js\<close>

type_synonym storage = "(string, urlEntry) js_map"

text \<open>\<^verbatim>\<open>const urlStorage = new Map();\<close>\<close>

definition urlStorage_init :: storage where
  "urlStorage_init = []"


definition shortcodeExists :: "string \<Rightarrow> storage \<Rightarrow> bool" where
  "shortcodeExists sc urlStorage = Map_has sc urlStorage"

definition storeUrl :: "urlEntry \<Rightarrow> storage \<Rightarrow> storage" where
  "storeUrl entry urlStorage = Map_set (shortcode entry) entry urlStorage"

definition getUrl :: "string \<Rightarrow> storage \<Rightarrow> urlEntry option" where
  "getUrl sc urlStorage = Map_get sc urlStorage"

definition recordClick :: "string \<Rightarrow> clickEvent \<Rightarrow> storage \<Rightarrow> storage" where
  "recordClick sc clickData urlStorage =
     (case Map_get sc urlStorage of
        None \<Rightarrow> urlStorage
      | Some entry \<Rightarrow>
          Map_set sc (entry\<lparr>clicks := clicks entry @ [clickData]\<rparr>) urlStorage)"

definition getAllUrls :: "storage \<Rightarrow> urlEntry list" where
  "getAllUrls urlStorage = map snd urlStorage"

text \<open>
  \<^verbatim>\<open>cleanupExpiredUrls\<close> reads the clock once (\<^verbatim>\<open>new Date()\<close>): the instant read is
  the parameter \<open>now\<close>. It returns the number of codes it deleted and the new registry.
\<close>

definition cleanupExpiredUrls :: "int \<Rightarrow> storage \<Rightarrow> nat \<times> storage" where
  "cleanupExpiredUrls now urlStorage =
     (let expiredShortcodes =
            map fst (filter (\<lambda>(sc, entry). expiresAt entry < now) urlStorage)
      in (length expiredShortcodes, fold Map_delete expiredShortcodes urlStorage))"

subsection \<open>Sequences of registry operations\<close>

datatype registry_op =
    StoreUrl urlEntry
  | RecordClick string clickEvent
  | CleanupExpiredUrls int

fun apply_op :: "registry_op \<Rightarrow> storage \<Rightarrow> storage" where
  "apply_op (StoreUrl entry) s = storeUrl entry s"
| "apply_op (RecordClick sc clickData) s = recordClick sc clickData s"
| "apply_op (CleanupExpiredUrls now) s = snd (cleanupExpiredUrls now s)"

text \<open>
  An operation leaves the entry \<open>e\<close> in place when it is not a store under the code of
  \<open>e\<close> and not a sweep at an instant later than the expiry of \<open>e\<close>.
\<close>

fun leaves :: "urlEntry \<Rightarrow> registry_op \<Rightarrow> bool" where
  "leaves e (StoreUrl entry) = (shortcode entry \<noteq> shortcode e)"
| "leaves e (RecordClick sc clickData) = True"
| "leaves e (CleanupExpiredUrls now) = (\<not> expiresAt e < now)"

subsection \<open>The uniqueness invariant\<close>

text \<open>
  No two entries of the registry carry the same shortcode, and every entry is stored
  under its own shortcode.
\<close>

definition uniqueness :: "storage \<Rightarrow> bool" where
  "uniqueness s =
     (distinct (map shortcode (getAllUrls s)) \<and> list_all (\<lambda>(sc, entry). shortcode entry = sc) s)"

subsection \<open>Characters and strings of JavaScript\<close>

definition isDigit :: "char \<Rightarrow> bool" where
  "isDigit c = (48 \<le> (of_char c :: nat) \<and> (of_char c :: nat) \<le> 57)"

definition isUpper :: "char \<Rightarrow> bool" where
  "isUpper c = (65 \<le> (of_char c :: nat) \<and> (of_char c :: nat) \<le> 90)"

definition isLower :: "char \<Rightarrow> bool" where
  "isLower c = (97 \<le> (of_char c :: nat) \<and> (of_char c :: nat) \<le> 122)"

definition isAlphanumeric :: "char \<Rightarrow> bool" where
  "isAlphanumeric c = (isLower c \<or> isUpper c \<or> isDigit c)"




text \<open>
  \<^verbatim>\<open>toLowerCase\<close> on the letters A to Z; the only caller applies it to a string
  that has passed the alphanumeric test.
\<close>

definition toLowerCase :: "string \<Rightarrow> string" where
  "toLowerCase s = map (\<lambda>c. if isUpper c then char_of (of_char c + (32::nat)) else c) s"



subsection \<open>validationService.js\<close>

record validation =
  isValid :: bool
  error :: "string option"


record validity_validation = validation +
  resolved :: "int option"

text \<open>\<^verbatim>\<open>/^[a-zA-Z0-9]+$/\<close>\<close>

definition alphanumericRegex :: "string \<Rightarrow> bool" where
  "alphanumericRegex s = (s \<noteq> [] \<and> list_all isAlphanumeric s)"

definition reservedWords :: "string list" where
  "reservedWords = [''api'', ''admin'', ''www'', ''shorturls'', ''health'', ''stats'']"

text \<open>
  The argument is \<^const>\<open>None\<close> for \<^verbatim>\<open>undefined\<close> or \<^verbatim>\<open>null\<close>; \<^verbatim>\<open>!shortcode\<close> holds
  for these and for the empty string.
\<close>

definition validateShortcode :: "string option \<Rightarrow> validation" where
  "validateShortcode arg =
     (case arg of
        None \<Rightarrow> \<lparr>isValid = False, error = Some ''Shortcode cannot be empty''\<rparr>
      | Some sc \<Rightarrow>
          if sc = [] then
            \<lparr>isValid = False, error = Some ''Shortcode cannot be empty''\<rparr>
          else if length sc < 4 \<or> length sc > 10 then
            \<lparr>isValid = False,
             error = Some ''Shortcode must be between 4 and 10 characters long''\<rparr>
          else if \<not> alphanumericRegex sc then
            \<lparr>isValid = False,
             error = Some ''Shortcode can only contain alphanumeric characters (a-z, A-Z, 0-9)''\<rparr>
          else if toLowerCase sc \<in> set reservedWords then
            \<lparr>isValid = False,
             error = Some ''Shortcode uses a reserved word. Please choose a different shortcode.''\<rparr>
          else \<lparr>isValid = True, error = None\<rparr>)"





text \<open>
  The argument of \<^verbatim>\<open>validateValidity\<close> is any JavaScript value. \<open>Integer n\<close> is a
  number whose value is the integer \<open>n\<close>; \<open>NonInteger\<close> is every other value that is
  neither \<^verbatim>\<open>undefined\<close> nor \<^verbatim>\<open>null\<close> (a fraction, \<^verbatim>\<open>NaN\<close>, a string, ...), for which
  \<^verbatim>\<open>Number.isInteger\<close> is false.
\<close>

datatype js_value = Undefined | Null | Integer int | NonInteger

definition validateValidity :: "js_value \<Rightarrow> validity_validation" where
  "validateValidity validity =
     (case validity of
        Undefined \<Rightarrow> \<lparr>isValid = True, error = None, resolved = Some 30\<rparr>
      | Null \<Rightarrow> \<lparr>isValid = True, error = None, resolved = Some 30\<rparr>
      | NonInteger \<Rightarrow>
          \<lparr>isValid = False, error = Some ''Validity must be an integer'', resolved = None\<rparr>
      | Integer n \<Rightarrow>
          if n < 1 \<or> n > 43200 then
            \<lparr>isValid = False,
             error = Some ''Validity must be between 1 and 43200 minutes (30 days)'',
             resolved = None\<rparr>
          else \<lparr>isValid = True, error = None, resolved = Some n\<rparr>)"

subsection \<open>Sample data\<close>

text \<open>
  Concrete clicks, entries, a registry of two entries, a sequence of \<^verbatim>\<open>nanoid\<close> draws
  and one result of the URL parser, for evaluating the functions.
\<close>

definition click_1 :: clickEvent where
  "click_1 =
     \<lparr>timestamp = 1500, referrer = ''Direct'', location = ''Unknown'',
      userAgent = ''curl''\<rparr>"

definition click_2 :: clickEvent where
  "click_2 =
     \<lparr>timestamp = 2500, referrer = ''example.org'', location = ''Unknown'',
      userAgent = ''curl''\<rparr>"

definition entry_abcd :: urlEntry where
  "entry_abcd =
     \<lparr>shortcode = ''abcd'', originalUrl = ''https://example.com/a'',
      createdAt = 0, expiresAt = 60000, clicks = []\<rparr>"

definition entry_abcd_other :: urlEntry where
  "entry_abcd_other =
     \<lparr>shortcode = ''abcd'', originalUrl = ''https://example.org/b'',
      createdAt = 1000, expiresAt = 61000, clicks = []\<rparr>"

definition entry_wxyz :: urlEntry where
  "entry_wxyz =
     \<lparr>shortcode = ''wxyz'', originalUrl = ''http://example.net/'',
      createdAt = 0, expiresAt = 120000, clicks = [click_1]\<rparr>"

definition storage_two :: storage where
  "storage_two = storeUrl entry_wxyz (storeUrl entry_abcd urlStorage_init)"





section \<open>Properties of the registry and the generator\<close>

subsection \<open>The map operations\<close>

lemma Map_get_set: "Map_get k' (Map_set k v m) = (if k' = k then Some v else Map_get k' m)"
  by (simp add: Map_get_def Map_set_def update_conv')

lemma Map_has_get: "Map_has k m \<longleftrightarrow> Map_get k m \<noteq> None"
  by (simp add: Map_has_def Map_get_def map_of_eq_None_iff)

lemma Map_set_fresh: "\<not> Map_has k m \<Longrightarrow> Map_set k v m = m @ [(k, v)]"
  unfolding Map_has_def Map_set_def by (induction m) auto

lemma keys_Map_set: "map fst (Map_set k v m) = (if Map_has k m then map fst m else map fst m @ [k])"
  unfolding Map_has_def Map_set_def by (induction m) auto

lemma distinct_Map_set: "distinct (map fst m) \<Longrightarrow> distinct (map fst (Map_set k v m))"
  by (simp add: Map_set_def distinct_update)

lemma fold_Map_delete: "fold Map_delete ks m = filter (\<lambda>(k, v). k \<notin> set ks) m"
proof (induction ks arbitrary: m)
  case Nil
  show ?case by simp
next
  case (Cons k ks)
  have "fold Map_delete (k # ks) m = filter (\<lambda>(k', v). k' \<notin> set ks) (Map_delete k m)"
    using Cons.IH by simp
  also have "\<dots> = filter (\<lambda>(k', v). k' \<notin> set (k # ks)) m"
    by (auto simp: Map_delete_def AList.delete_eq intro: filter_cong)
  finally show ?case .
qed

lemma distinct_keys_unique:
  "distinct (map fst m) \<Longrightarrow> (k, v) \<in> set m \<Longrightarrow> (k, v') \<in> set m \<Longrightarrow> v = v'"
  by (meson eq_key_imp_eq_value)

lemma cleanup_filter:
  assumes "distinct (map fst s)"
  shows "snd (cleanupExpiredUrls now s) = filter (\<lambda>(sc, entry). \<not> expiresAt entry < now) s"
proof -
  have "filter (\<lambda>(k, v). k \<notin> set (map fst (filter (\<lambda>(sc, entry). expiresAt entry < now) s))) s
        = filter (\<lambda>(sc, entry). \<not> expiresAt entry < now) s"
  proof (rule filter_cong[OF refl])
    fix p assume p: "p \<in> set s"
    obtain k v where kv: "p = (k, v)" by (cases p)
    have "k \<in> set (map fst (filter (\<lambda>(sc, entry). expiresAt entry < now) s)) \<longleftrightarrow> expiresAt v < now"
    proof
      assume "k \<in> set (map fst (filter (\<lambda>(sc, entry). expiresAt entry < now) s))"
      then obtain v' where v': "(k, v') \<in> set s" "expiresAt v' < now" by auto
      with assms p kv have "v' = v" using distinct_keys_unique by fastforce
      with v' show "expiresAt v < now" by simp
    next
      assume "expiresAt v < now"
      with p kv show "k \<in> set (map fst (filter (\<lambda>(sc, entry). expiresAt entry < now) s))"
        by force
    qed
    then show "(case p of (k, v) \<Rightarrow> k \<notin> set (map fst (filter (\<lambda>(sc, entry). expiresAt entry < now) s)))
               = (case p of (sc, entry) \<Rightarrow> \<not> expiresAt entry < now)"
      by (simp add: kv)
  qed
  then show ?thesis
    by (simp add: cleanupExpiredUrls_def fold_Map_delete)
qed


lemma Map_get_filter:
  assumes "distinct (map fst m)"
  shows "Map_get k (filter (\<lambda>(k, v). P v) m) = (case Map_get k m of None \<Rightarrow> None | Some v \<Rightarrow> if P v then Some v else None)"
  using assms unfolding Map_get_def
proof (induction m)
  case Nil
  show ?case by simp
next
  case (Cons p m)
  obtain k' v' where p: "p = (k', v')" by (cases p)
  have notin: "k' = k \<Longrightarrow> map_of (filter (\<lambda>(k, v). P v) m) k = None"
    using Cons.prems p by (auto simp: map_of_eq_None_iff)
  show ?case using Cons p notin by (auto split: option.splits)
qed

subsection \<open>Lookups after each operation\<close>

lemma storage_two_eq: "storage_two = [(''abcd'', entry_abcd), (''wxyz'', entry_wxyz)]"
  by (simp add: storage_two_def storeUrl_def Map_set_def urlStorage_init_def entry_abcd_def entry_wxyz_def)

lemma getUrl_storeUrl: "getUrl c (storeUrl e s) = (if c = shortcode e then Some e else getUrl c s)"
  by (simp add: getUrl_def storeUrl_def Map_get_set)

lemma getUrl_recordClick:
  "getUrl c' (recordClick c ev s) =
     (if c' = c then map_option (\<lambda>e. e\<lparr>clicks := clicks e @ [ev]\<rparr>) (getUrl c s) else getUrl c' s)"
  by (simp add: getUrl_def recordClick_def Map_get_set split: option.splits)

lemma getUrl_cleanup:
  "distinct (map fst s) \<Longrightarrow>
   getUrl c (snd (cleanupExpiredUrls now s)) =
     (case getUrl c s of None \<Rightarrow> None | Some e \<Rightarrow> if expiresAt e < now then None else Some e)"
  using Map_get_filter [of s c "\<lambda>e. \<not> expiresAt e < now"]
  by (simp add: cleanup_filter getUrl_def split: option.splits)

lemma keys_recordClick: "map fst (recordClick c ev s) = map fst s"
  by (simp add: recordClick_def keys_Map_set Map_has_get split: option.splits)

lemma distinct_storeUrl: "distinct (map fst s) \<Longrightarrow> distinct (map fst (storeUrl e s))"
  by (simp add: storeUrl_def distinct_Map_set)

lemma distinct_cleanup: "distinct (map fst s) \<Longrightarrow> distinct (map fst (snd (cleanupExpiredUrls now s)))"
  by (simp add: cleanup_filter distinct_map_filter)

lemma distinct_apply_op: "distinct (map fst s) \<Longrightarrow> distinct (map fst (apply_op x s))"
  by (cases x) (simp_all add: distinct_storeUrl keys_recordClick distinct_cleanup)

lemma uniqueness_iff:
  "uniqueness s \<longleftrightarrow> distinct (map fst s) \<and> (\<forall>(sc, e) \<in> set s. shortcode e = sc)"
proof (cases "\<forall>(sc, e) \<in> set s. shortcode e = sc")
  case True
  then have eq: "map (shortcode \<circ> snd) s = map fst s"
    by (induction s) auto
  show ?thesis
    unfolding uniqueness_def getAllUrls_def map_map eq using True
    by (simp add: list_all_iff)
next
  case False
  then show ?thesis
    by (auto simp: uniqueness_def list_all_iff)
qed

lemma set_Map_set: "set (Map_set k v m) \<subseteq> insert (k, v) (set m)"
  unfolding Map_set_def by (induction m) auto

lemma uniqueness_storeUrl: "uniqueness s \<Longrightarrow> uniqueness (storeUrl e s)"
  unfolding uniqueness_iff using set_Map_set [of "shortcode e" e s] distinct_storeUrl [of s e]
  by (auto simp: storeUrl_def)

lemma uniqueness_recordClick: "uniqueness s \<Longrightarrow> uniqueness (recordClick c ev s)"
proof (cases "Map_get c s")
  case None
  assume "uniqueness s"
  with None show ?thesis by (simp add: recordClick_def)
next
  case (Some e)
  assume u: "uniqueness s"
  from Some have "(c, e) \<in> set s" by (simp add: Map_get_def map_of_SomeD)
  with u have sc: "shortcode e = c" by (auto simp: uniqueness_iff)
  have "set (recordClick c ev s) \<subseteq> insert (c, e\<lparr>clicks := clicks e @ [ev]\<rparr>) (set s)"
    using Some set_Map_set by (simp add: recordClick_def)
  with u sc show ?thesis
    unfolding uniqueness_iff by (auto simp: keys_recordClick)
qed

lemma uniqueness_cleanup: "uniqueness s \<Longrightarrow> uniqueness (snd (cleanupExpiredUrls now s))"
  unfolding uniqueness_iff by (auto simp: cleanup_filter distinct_map_filter)

lemma uniqueness_apply_op: "uniqueness s \<Longrightarrow> uniqueness (apply_op x s)"
  by (cases x) (simp_all add: uniqueness_storeUrl uniqueness_recordClick uniqueness_cleanup)

lemma uniqueness_fold: "uniqueness s \<Longrightarrow> uniqueness (fold apply_op ops s)"
  by (induction ops arbitrary: s) (simp_all add: uniqueness_apply_op)

lemma uniqueness_at_most_one:
  assumes "uniqueness s"
  shows "length (filter (\<lambda>e. shortcode e = c) (getAllUrls s)) \<le> 1"
proof -
  have "distinct xs \<Longrightarrow> length (filter (\<lambda>x. x = c) xs) \<le> 1" for xs :: "string list"
    by (induction xs) (auto simp: filter_empty_conv)
  from this [of "map shortcode (getAllUrls s)"] assms
  show ?thesis by (simp add: uniqueness_def filter_map comp_def)
qed

lemma uniqueness_key:
  assumes "uniqueness s" "getUrl c s = Some e"
  shows "shortcode e = c"
proof -
  from assms(2) have "(c, e) \<in> set s" by (simp add: getUrl_def Map_get_def map_of_SomeD)
  with assms(1) show ?thesis by (auto simp: uniqueness_iff)
qed

lemmas sample_defs = storage_two_eq entry_abcd_def entry_abcd_other_def entry_wxyz_def click_1_def click_2_def

lemmas registry_defs = storeUrl_def getUrl_def shortcodeExists_def recordClick_def cleanupExpiredUrls_def
  getAllUrls_def urlStorage_init_def Map_has_def Map_get_def Map_set_def Map_delete_def

subsection \<open>Entries that stay, and the shortcode validator\<close>

lemma leaves_keeps:
  assumes d: "distinct (map fst s)"
    and g: "getUrl (shortcode e) s = Some e'"
    and same: "originalUrl e' = originalUrl e" "expiresAt e' = expiresAt e"
    and l: "leaves e x"
  shows "\<exists>e''. getUrl (shortcode e) (apply_op x s) = Some e''
           \<and> originalUrl e'' = originalUrl e \<and> expiresAt e'' = expiresAt e"
proof (cases x)
  case (StoreUrl entry)
  with l g same show ?thesis by (simp add: getUrl_storeUrl)
next
  case (RecordClick sc clickData)
  with g same show ?thesis by (auto simp: getUrl_recordClick)
next
  case (CleanupExpiredUrls now)
  with l g same d show ?thesis by (simp add: getUrl_cleanup)
qed

lemma leaves_fold:
  assumes "distinct (map fst s)"
    and "getUrl (shortcode e) s = Some e'"
    and "originalUrl e' = originalUrl e" "expiresAt e' = expiresAt e"
    and "list_all (leaves e) ops"
  shows "\<exists>e''. getUrl (shortcode e) (fold apply_op ops s) = Some e''
           \<and> originalUrl e'' = originalUrl e \<and> expiresAt e'' = expiresAt e"
  using assms
proof (induction ops arbitrary: s e')
  case Nil
  then show ?case by simp
next
  case (Cons x ops)
  from Cons.prems have lx: "leaves e x" and lops: "list_all (leaves e) ops" by simp_all
  from leaves_keeps [OF Cons.prems(1-4) lx]
  obtain e1 where e1: "getUrl (shortcode e) (apply_op x s) = Some e1"
    "originalUrl e1 = originalUrl e" "expiresAt e1 = expiresAt e" by blast
  have "distinct (map fst (apply_op x s))" using Cons.prems(1) by (rule distinct_apply_op)
  from Cons.IH [OF this e1 lops] show ?case by simp
qed

lemma length_toLowerCase: "length (toLowerCase s) = length s"
  by (simp add: toLowerCase_def)

lemma reserved_lengths: "w \<in> set reservedWords \<Longrightarrow> length w \<in> {3, 5, 6, 9}"
  by (auto simp: reservedWords_def)

lemma not_reserved:
  assumes "length sc = 4 \<or> length sc = 10"
  shows "toLowerCase sc \<notin> set reservedWords"
proof
  assume "toLowerCase sc \<in> set reservedWords"
  then have "length (toLowerCase sc) \<in> {3, 5, 6, 9}" by (rule reserved_lengths)
  with assms show False by (auto simp: length_toLowerCase)
qed

lemmas char_defs = isAlphanumeric_def isLower_def isUpper_def isDigit_def

subsection \<open>The generator loop\<close>





subsection \<open>Trimming\<close>








section \<open>The claims\<close>

subsection \<open>Claim C1\<close>

text \<open>
  Against claim C1 as stated: storing a second entry under the taken code \<open>abcd\<close>
  changes the registry, and the entry found under \<open>abcd\<close> is then the second one.
\<close>

theorem storeUrl_conflict_counterexample:
  "shortcodeExists (shortcode entry_abcd_other) storage_two
   \<and> storeUrl entry_abcd_other storage_two \<noteq> storage_two
   \<and> getUrl ''abcd'' storage_two = Some entry_abcd
   \<and> getUrl ''abcd'' (storeUrl entry_abcd_other storage_two) = Some entry_abcd_other
   \<and> originalUrl entry_abcd_other \<noteq> originalUrl entry_abcd"
  by (simp add: sample_defs registry_defs)

text \<open>
  Claim C1, as the code has it. \<^verbatim>\<open>storeUrl\<close> is a plain \<^verbatim>\<open>Map.set\<close>: it has no failure
  branch and does not look whether the code is taken. After the call the entry is stored
  under its shortcode, whatever was stored there before, and every other code maps to
  what it mapped to. The test for a taken code is the separate \<^verbatim>\<open>shortcodeExists\<close>,
  true exactly when a lookup of the code finds an entry; when it is false the entry is
  appended to the registry.
\<close>

theorem storeUrl_replaces:
  "getUrl (shortcode e) (storeUrl e s) = Some e
   \<and> (\<forall>c. c \<noteq> shortcode e \<longrightarrow> getUrl c (storeUrl e s) = getUrl c s)
   \<and> (shortcodeExists (shortcode e) s \<longleftrightarrow> getUrl (shortcode e) s \<noteq> None)
   \<and> (\<not> shortcodeExists (shortcode e) s \<longrightarrow> storeUrl e s = s @ [(shortcode e, e)])"
proof -
  have "shortcodeExists (shortcode e) s \<longleftrightarrow> getUrl (shortcode e) s \<noteq> None"
    by (simp add: shortcodeExists_def Map_has_get getUrl_def)
  moreover have "\<not> shortcodeExists (shortcode e) s \<longrightarrow> storeUrl e s = s @ [(shortcode e, e)]"
    by (simp add: shortcodeExists_def storeUrl_def Map_set_fresh)
  ultimately show ?thesis
    by (simp add: getUrl_storeUrl)
qed

theorem storeUrl_replaces_witness:
  "getUrl ''abcd'' (storeUrl entry_abcd_other storage_two) = Some entry_abcd_other
   \<and> getUrl ''wxyz'' (storeUrl entry_abcd_other storage_two) = Some entry_wxyz
   \<and> shortcodeExists ''abcd'' storage_two
   \<and> storeUrl entry_wxyz (storeUrl entry_abcd urlStorage_init)
       = storeUrl entry_abcd urlStorage_init @ [(''wxyz'', entry_wxyz)]"
proof -
  have a: "shortcode entry_abcd_other = ''abcd''" "shortcode entry_wxyz = ''wxyz''"
    by (simp_all add: sample_defs)
  have b: "\<not> shortcodeExists ''wxyz'' (storeUrl entry_abcd urlStorage_init)"
    by (simp add: sample_defs registry_defs)
  have c: "getUrl ''wxyz'' storage_two = Some entry_wxyz" "getUrl ''abcd'' storage_two \<noteq> None"
    by (simp_all add: sample_defs registry_defs)
  show ?thesis
    using storeUrl_replaces [of entry_abcd_other storage_two]
      storeUrl_replaces [of entry_wxyz "storeUrl entry_abcd urlStorage_init"] a b c
    by simp
qed

subsection \<open>Claim C2\<close>




subsection \<open>Claim C3\<close>

text \<open>
  Claim C3. The uniqueness invariant holds for the empty initial registry and is
  preserved by \<^verbatim>\<open>storeUrl\<close>, \<^verbatim>\<open>recordClick\<close> and \<^verbatim>\<open>cleanupExpiredUrls\<close>, hence it
  holds after every sequence of these operations. Under the invariant at most one entry
  of the registry has a given shortcode, and the entry found under a code carries that
  code. The expiry instants play no part: entries that have expired and are not yet swept
  are covered.
\<close>

theorem uniqueness_invariant:
  "uniqueness urlStorage_init
   \<and> (uniqueness s \<longrightarrow> uniqueness (storeUrl e s))
   \<and> (uniqueness s \<longrightarrow> uniqueness (recordClick c ev s))
   \<and> (uniqueness s \<longrightarrow> uniqueness (snd (cleanupExpiredUrls now s)))
   \<and> uniqueness (fold apply_op ops urlStorage_init)
   \<and> (uniqueness s \<longrightarrow>
        length (filter (\<lambda>x. shortcode x = c) (getAllUrls s)) \<le> 1
        \<and> (\<forall>x. getUrl c s = Some x \<longrightarrow> shortcode x = c))"
proof -
  have init: "uniqueness urlStorage_init"
    by (simp add: uniqueness_def urlStorage_init_def getAllUrls_def)
  from init have "uniqueness (fold apply_op ops urlStorage_init)" by (rule uniqueness_fold)
  with init show ?thesis
    using uniqueness_storeUrl uniqueness_recordClick uniqueness_cleanup
      uniqueness_at_most_one uniqueness_key by blast
qed

theorem uniqueness_invariant_witness:
  "uniqueness urlStorage_init
   \<and> uniqueness storage_two
   \<and> uniqueness (storeUrl entry_abcd_other storage_two)
   \<and> uniqueness (recordClick ''abcd'' click_2 storage_two)
   \<and> uniqueness (snd (cleanupExpiredUrls 60001 storage_two))
   \<and> length (filter (\<lambda>x. shortcode x = ''abcd'') (getAllUrls storage_two)) \<le> 1
   \<and> shortcode entry_abcd = ''abcd''"
proof -
  have a: "storage_two = fold apply_op [StoreUrl entry_abcd, StoreUrl entry_wxyz] urlStorage_init"
    by (simp add: storage_two_def)
  have b: "getUrl ''abcd'' storage_two = Some entry_abcd"
    by (simp add: sample_defs registry_defs)
  have u: "uniqueness storage_two"
    using uniqueness_invariant [of _ _ _ _ _ "[StoreUrl entry_abcd, StoreUrl entry_wxyz]"]
    unfolding a by blast
  show ?thesis
    using uniqueness_invariant [of storage_two entry_abcd_other "''abcd''" click_2 60001 "[]"] u b
    by simp
qed

subsection \<open>Claim C4\<close>



subsection \<open>Claim C5\<close>

text \<open>
  Claim C5. \<^verbatim>\<open>recordClick\<close> on a code with no entry returns the registry as it is. On a
  code with an entry it puts the click at the end of the clicks of that entry, keeps the
  clicks recorded before and their order, and changes no other field, no other entry and
  no key.
\<close>

theorem recordClick_appends:
  "(getUrl c s = None \<longrightarrow> recordClick c ev s = s)
   \<and> (\<forall>e. getUrl c s = Some e \<longrightarrow>
         getUrl c (recordClick c ev s) = Some (e\<lparr>clicks := clicks e @ [ev]\<rparr>))
   \<and> (\<forall>c'. c' \<noteq> c \<longrightarrow> getUrl c' (recordClick c ev s) = getUrl c' s)
   \<and> map fst (recordClick c ev s) = map fst s"
  by (simp add: getUrl_recordClick keys_recordClick) (simp add: getUrl_def recordClick_def)

theorem recordClick_appends_witness:
  "recordClick ''none'' click_2 storage_two = storage_two
   \<and> getUrl ''wxyz'' (recordClick ''wxyz'' click_2 storage_two)
       = Some (entry_wxyz\<lparr>clicks := [click_1, click_2]\<rparr>)
   \<and> getUrl ''abcd'' (recordClick ''wxyz'' click_2 storage_two) = Some entry_abcd
   \<and> map fst (recordClick ''wxyz'' click_2 storage_two) = [''abcd'', ''wxyz'']"
proof -
  have a: "getUrl ''none'' storage_two = None" "getUrl ''wxyz'' storage_two = Some entry_wxyz"
    "getUrl ''abcd'' storage_two = Some entry_abcd" "clicks entry_wxyz = [click_1]"
    "map fst storage_two = [''abcd'', ''wxyz'']"
    by (simp_all add: sample_defs registry_defs)
  show ?thesis
    using recordClick_appends [of "''none''" storage_two click_2]
      recordClick_appends [of "''wxyz''" storage_two click_2] a
    by simp
qed

subsection \<open>Claim C6\<close>

text \<open>Against claim C6 as stated: the absent shortcode is not valid.\<close>

theorem validateShortcode_absent_counterexample:
  "\<not> isValid (validateShortcode None)"
  by (simp add: validateShortcode_def)

text \<open>
  Claim C6, as the code has it. \<^verbatim>\<open>validateShortcode\<close> rejects an absent shortcode
  (\<^verbatim>\<open>undefined\<close>, \<^verbatim>\<open>null\<close>) and the empty string, with the reason
  \<^verbatim>\<open>Shortcode cannot be empty\<close>.
\<close>

theorem validateShortcode_absent:
  "validateShortcode None = \<lparr>isValid = False, error = Some ''Shortcode cannot be empty''\<rparr>
   \<and> validateShortcode (Some '''') = \<lparr>isValid = False, error = Some ''Shortcode cannot be empty''\<rparr>"
  by (simp add: validateShortcode_def)

theorem validateShortcode_absent_witness:
  "error (validateShortcode None) = Some ''Shortcode cannot be empty''
   \<and> error (validateShortcode (Some [])) = Some ''Shortcode cannot be empty''
   \<and> isValid (validateShortcode (Some ''abcd''))"
proof -
  have "isValid (validateShortcode (Some ''abcd''))"
    by (simp add: validateShortcode_def alphanumericRegex_def isAlphanumeric_def isLower_def
        isUpper_def isDigit_def toLowerCase_def reservedWords_def)
  with validateShortcode_absent show ?thesis by simp
qed

subsection \<open>Claim C7\<close>




subsection \<open>Claim C8\<close>

text \<open>
  Claim C8. After \<^verbatim>\<open>storeUrl\<close> of an entry with code \<open>c\<close> and URL \<open>U\<close>, \<^verbatim>\<open>getUrl\<close>
  on \<open>c\<close> finds an entry whose \<^verbatim>\<open>originalUrl\<close> is \<open>U\<close>: at once, and after any
  sequence of clicks, of stores under other codes and of sweeps at instants not later
  than the expiry of the entry.
\<close>

theorem storeUrl_getUrl_roundtrip:
  assumes "distinct (map fst s)" and "list_all (leaves e) ops"
  shows "map_option originalUrl (getUrl (shortcode e) (storeUrl e s)) = Some (originalUrl e)
    \<and> map_option originalUrl (getUrl (shortcode e) (fold apply_op ops (storeUrl e s)))
        = Some (originalUrl e)"
proof -
  have d: "distinct (map fst (storeUrl e s))" using assms(1) by (rule distinct_storeUrl)
  have g: "getUrl (shortcode e) (storeUrl e s) = Some e" by (simp add: getUrl_storeUrl)
  from leaves_fold [OF d g refl refl assms(2)] g show ?thesis by auto
qed

theorem storeUrl_getUrl_roundtrip_witness:
  "distinct (map fst storage_two)
   \<and> list_all (leaves entry_abcd_other)
        [RecordClick ''abcd'' click_2, StoreUrl entry_wxyz, CleanupExpiredUrls 61000]
   \<and> map_option originalUrl
        (getUrl ''abcd''
          (fold apply_op [RecordClick ''abcd'' click_2, StoreUrl entry_wxyz, CleanupExpiredUrls 61000]
            (storeUrl entry_abcd_other storage_two)))
       = Some ''https://example.org/b''"
proof -
  have a: "distinct (map fst storage_two)" by (simp add: sample_defs)
  have b: "list_all (leaves entry_abcd_other)
             [RecordClick ''abcd'' click_2, StoreUrl entry_wxyz, CleanupExpiredUrls 61000]"
    by (simp add: sample_defs)
  have c: "shortcode entry_abcd_other = ''abcd''"
    "originalUrl entry_abcd_other = ''https://example.org/b''"
    by (simp_all add: sample_defs)
  from storeUrl_getUrl_roundtrip [OF a b] a b c show ?thesis by simp
qed

subsection \<open>Claim C9\<close>

text \<open>
  Claim C9. \<^verbatim>\<open>validateShortcode\<close> rejects every alphanumeric code of length 3 or 11
  and accepts every alphanumeric code of length 4 or 10 (no reserved word has one of
  these lengths); \<^verbatim>\<open>validateValidity\<close> rejects 0 and 43201 and accepts 1 and 43200.
\<close>

theorem validation_boundaries:
  "(alphanumericRegex sc \<and> (length sc = 3 \<or> length sc = 11)
      \<longrightarrow> \<not> isValid (validateShortcode (Some sc)))
   \<and> (alphanumericRegex sc \<and> (length sc = 4 \<or> length sc = 10)
      \<longrightarrow> isValid (validateShortcode (Some sc)))
   \<and> \<not> isValid (validateValidity (Integer 0))
   \<and> \<not> isValid (validateValidity (Integer 43201))
   \<and> isValid (validateValidity (Integer 1))
   \<and> isValid (validateValidity (Integer 43200))"
proof -
  have "alphanumericRegex sc \<and> (length sc = 3 \<or> length sc = 11)
      \<longrightarrow> \<not> isValid (validateShortcode (Some sc))"
    by (auto simp: validateShortcode_def)
  moreover have "alphanumericRegex sc \<and> (length sc = 4 \<or> length sc = 10)
      \<longrightarrow> isValid (validateShortcode (Some sc))"
    using not_reserved [of sc] by (auto simp: validateShortcode_def)
  ultimately show ?thesis
    by (simp add: validateValidity_def)
qed

theorem validation_boundaries_witness:
  "alphanumericRegex ''abc'' \<and> \<not> isValid (validateShortcode (Some ''abc''))
   \<and> alphanumericRegex ''abcdefghijk'' \<and> \<not> isValid (validateShortcode (Some ''abcdefghijk''))
   \<and> alphanumericRegex ''aB3d'' \<and> isValid (validateShortcode (Some ''aB3d''))
   \<and> alphanumericRegex ''abcdefghij'' \<and> isValid (validateShortcode (Some ''abcdefghij''))
   \<and> resolved (validateValidity (Integer 1)) = Some 1
   \<and> resolved (validateValidity (Integer 43200)) = Some 43200"
proof -
  have a: "alphanumericRegex ''abc''" "alphanumericRegex ''abcdefghijk''"
    "alphanumericRegex ''aB3d''" "alphanumericRegex ''abcdefghij''"
    by (simp_all add: alphanumericRegex_def char_defs)
  have b: "resolved (validateValidity (Integer 1)) = Some 1"
    "resolved (validateValidity (Integer 43200)) = Some 43200"
    by (simp_all add: validateValidity_def)
  show ?thesis
    using validation_boundaries [of "''abc''"] validation_boundaries [of "''abcdefghijk''"]
      validation_boundaries [of "''aB3d''"] validation_boundaries [of "''abcdefghij''"] a b
    by simp
qed

subsection \<open>Claim C10\<close>




end
